theory Spec2Isabelle
  imports
    Main
    "HOL-Library.Char_ord"
    "HOL-Library.List_Lexorder"
    "HOL-Library.Option_ord"
    "HOL-Library.Product_Lexorder"
begin

section \<open>Intra-alignment variant calling (pav3/call/intra.py)\<close>

text \<open>
  The module calls SNV, INS and DEL variants from the alignment operations of each
  alignment record, chromosome by chromosome, flags inversion candidates and joins
  confirmed inversions to the alignment table. The data frames of the source are lists of
  rows here; a column expression is a function of the row; a nullable column is an
  \<open>option\<close>. Column arithmetic is read over the integers. Alignment scores and variant
  scores are values of an arbitrary type \<open>'s\<close>: they are only copied and compared.
\<close>

subsection \<open>Python and data-frame primitives\<close>

datatype error = IndexError | KeyError string | ValueError string

text \<open>\<open>s[i]\<close> of a Python sequence: a negative index counts from the end.\<close>

definition py_getitem :: "'a list \<Rightarrow> int \<Rightarrow> error + 'a" where
  "py_getitem s i =
     (let n = int (length s); j = (if i < 0 then n + i else i)
      in if 0 \<le> j \<and> j < n then Inr (s ! nat j) else Inl IndexError)"

text \<open>
  \<open>s[a:b]\<close> of a Python sequence: a negative bound counts from the end, both bounds are
  clipped to the sequence, and nothing is raised.
\<close>

definition py_bound :: "nat \<Rightarrow> int \<Rightarrow> nat" where
  "py_bound n i = (if i < 0 then nat (max (int n + i) 0) else nat (min i (int n)))"

definition py_slice :: "'a list \<Rightarrow> int \<Rightarrow> int \<Rightarrow> 'a list" where
  "py_slice s a b = take (py_bound (length s) b - py_bound (length s) a) (drop (py_bound (length s) a) s)"

text \<open>
  \<open>Expr.map_elements(f)\<close> on one value of a column: a null is passed through (nulls are
  skipped), an exception of \<open>f\<close> ends the query.
\<close>

definition map_elements :: "('a \<Rightarrow> error + 'b) \<Rightarrow> 'a option \<Rightarrow> error + 'b option" where
  "map_elements f v =
     (case v of
        None \<Rightarrow> Inr None
      | Some x \<Rightarrow> (case f x of Inl e \<Rightarrow> Inl e | Inr y \<Rightarrow> Inr (Some y)))"

text \<open>\<open>Expr.replace(old, new)\<close> on one value: a value that is not in \<open>old\<close> is kept.\<close>

definition replace_values :: "'a list \<Rightarrow> 'a list \<Rightarrow> 'a \<Rightarrow> 'a" where
  "replace_values old new x = (case map_of (zip old new) x of None \<Rightarrow> x | Some y \<Rightarrow> y)"

text \<open>\<open>Expr.cum_sum()\<close> of a column and \<open>Expr.shift(1, fill_value=v)\<close>.\<close>

fun cum_sum_from :: "int \<Rightarrow> int list \<Rightarrow> int list" where
  "cum_sum_from acc [] = []"
| "cum_sum_from acc (x # xs) = (acc + x) # cum_sum_from (acc + x) xs"

definition cum_sum :: "int list \<Rightarrow> int list" where
  "cum_sum xs = cum_sum_from 0 xs"

definition shift1 :: "'a \<Rightarrow> 'a list \<Rightarrow> 'a list" where
  "shift1 fill_value xs = take (length xs) (fill_value # xs)"

text \<open>
  \<open>pl.int_ranges(0, n)\<close> followed by \<open>explode\<close>: one row for each offset below \<open>n\<close>;
  \<open>explode\<close> turns an empty list into one row that holds a null.
\<close>

definition int_ranges_explode :: "nat \<Rightarrow> int option list" where
  "int_ranges_explode n = (if n = 0 then [None] else map (\<lambda>k. Some (int k)) [0..<n])"

text \<open>The rows of a query whose expressions may raise: the first exception ends it.\<close>

fun collect :: "(error + 'a) list \<Rightarrow> error + 'a list" where
  "collect [] = Inr []"
| "collect (Inl e # xs) = Inl e"
| "collect (Inr x # xs) = (case collect xs of Inl e \<Rightarrow> Inl e | Inr ys \<Rightarrow> Inr (x # ys))"

text \<open>A sort column with \<open>descending=True\<close>: the order of the values, reversed.\<close>

datatype 'a desc = Desc 'a

instantiation desc :: (linorder) linorder
begin

definition less_eq_desc :: "'a desc \<Rightarrow> 'a desc \<Rightarrow> bool" where
  "less_eq_desc x y = (case x of Desc a \<Rightarrow> (case y of Desc b \<Rightarrow> b \<le> a))"

definition less_desc :: "'a desc \<Rightarrow> 'a desc \<Rightarrow> bool" where
  "less_desc x y = (case x of Desc a \<Rightarrow> (case y of Desc b \<Rightarrow> b < a))"

instance
  by standard (auto simp: less_eq_desc_def less_desc_def split: desc.splits)

end

subsection \<open>Alignment records and operations\<close>

datatype op_code = Op_EQ | Op_X | Op_I | Op_D | Op_S | Op_H | Op_N

text \<open>
  Modelled from the spec: the arrays \<open>op.ADV_REF_ARR\<close> and \<open>op.ADV_QRY_ARR\<close> of
  \<open>pav3.align.op\<close>, which is not among the sources. The spec gives the operation classes
  \<open>ADV_REF = {=, X, D, N}\<close> and \<open>ADV_QRY = {=, X, I, S}\<close>.
\<close>

definition ADV_REF_ARR :: "op_code list" where
  "ADV_REF_ARR = [Op_EQ, Op_X, Op_D, Op_N]"

definition ADV_QRY_ARR :: "op_code list" where
  "ADV_QRY_ARR = [Op_EQ, Op_X, Op_I, Op_S]"

text \<open>
  One row of the alignment table. \<open>align_ops\<close> is a struct of two equally long arrays,
  \<open>op_code\<close> and \<open>op_len\<close>; it is the list of their pairs here. Operation lengths are
  unsigned.
\<close>

record 's align_record =
  a_align_index :: nat
  a_chrom :: string
  a_pos :: int
  a_qry_id :: string
  a_is_rev :: bool
  a_score :: 's
  a_filter :: string
  a_align_ops :: "(op_code \<times> nat) list"

text \<open>One row of the exploded operation table \<open>df\<close> of a record (lines 162 to 200).\<close>

record op_row =
  o_code :: op_code
  o_len :: nat
  o_pos :: int
  o_end :: int
  o_qry_pos :: int
  o_qry_end :: int

text \<open>The columns \<open>qry_len\<close> and \<open>ref_len\<close>: how far an operation advances each sequence.\<close>

definition op_qry_len :: "op_code \<times> nat \<Rightarrow> int" where
  "op_qry_len x = (if fst x \<in> set ADV_QRY_ARR then int (snd x) else 0)"

definition op_ref_len :: "op_code \<times> nat \<Rightarrow> int" where
  "op_ref_len x = (if fst x \<in> set ADV_REF_ARR then int (snd x) else 0)"

text \<open>
  The operation table before the remapping. An empty operation list explodes to one row
  of nulls, which none of the three filters on \<open>op_code\<close> keeps; it is left out.
\<close>

definition expand_ops :: "int \<Rightarrow> (op_code \<times> nat) list \<Rightarrow> op_row list" where
  "expand_ops pos ops =
     (let qry_len = map op_qry_len ops;
          ref_len = map op_ref_len ops;
          end_col = map (\<lambda>s. s + pos) (cum_sum ref_len);
          qry_end_col = cum_sum qry_len;
          pos_col = shift1 pos end_col;
          qry_pos_col = shift1 0 qry_end_col
      in map (\<lambda>i. \<lparr>o_code = fst (ops ! i), o_len = snd (ops ! i),
                    o_pos = pos_col ! i, o_end = end_col ! i,
                    o_qry_pos = qry_pos_col ! i, o_qry_end = qry_end_col ! i\<rparr>)
           [0..<length ops])"

text \<open>
  The two columns of the reverse-strand remapping are computed from the row as it was:
  \<open>with_columns\<close> evaluates all its expressions on the input frame.
\<close>

definition remap_rev :: "int \<Rightarrow> op_row \<Rightarrow> op_row" where
  "remap_rev qry_len r =
     r\<lparr>o_qry_pos := qry_len - o_qry_end r, o_qry_end := qry_len - o_qry_pos r\<rparr>"

definition op_table :: "bool \<Rightarrow> int \<Rightarrow> int \<Rightarrow> (op_code \<times> nat) list \<Rightarrow> op_row list" where
  "op_table is_rev qry_len pos ops =
     (let df = expand_ops pos ops
      in if is_rev then map (remap_rev qry_len) df else df)"

subsection \<open>Collaborators taken as parameters\<close>

text \<open>
  The two sequence caches, the score model and the complement of \<open>Bio.Seq\<close> are outside
  this module. Modelled from the spec: a cache (\<open>LRUSequenceCache\<close> of \<open>pav3.seq\<close>, not
  among the sources) maps a sequence name to its sequence, and a lookup that finds
  nothing is fatal; it is a partial map here, and a miss is a \<open>KeyError\<close>.
\<close>

record 's env =
  e_ref_cache :: "string \<Rightarrow> string option"
  e_qry_cache :: "string \<Rightarrow> string option"
  e_mismatch :: "nat \<Rightarrow> 's"
  e_gap :: "nat \<Rightarrow> 's"
  e_complement :: "char \<Rightarrow> char"

definition reverse_complement :: "(char \<Rightarrow> char) \<Rightarrow> string \<Rightarrow> string" where
  "reverse_complement compl s = rev (map compl s)"

text \<open>
  Modelled from the spec: the lists \<open>COMPL_TR_FROM\<close> and \<open>COMPL_TR_TO\<close> of
  \<open>pav3.call.util\<close>, which is not among the sources. The spec gives the complement of
  an SNV base as A to T, T to A, C to G, G to C and N to N; the lists hold these pairs.
  What becomes of a base that the lists do not hold is decided by the source, which
  reads the lists with \<open>replace\<close> (line 234), not by the lists.
\<close>

definition COMPL_TR_FROM :: "char list" where
  "COMPL_TR_FROM = ''ATCGN''"

definition COMPL_TR_TO :: "char list" where
  "COMPL_TR_TO = ''TAGCN''"

definition CALL_SOURCE :: string where
  "CALL_SOURCE = ''INTRA''"

subsection \<open>Variant rows\<close>

datatype vartype = SNV | INS | DEL | INV

text \<open>
  The columns of the two per-record tables, without \<open>id\<close> (a string built from the
  other columns) and the row index. \<open>_align_score\<close> is dropped from a chromosome's table
  after the sort; the rows keep it here, so that the order of the result can be stated.
\<close>

record 's snv_row =
  snv_chrom :: string
  snv_pos :: "int option"
  snv_end :: "int option"
  snv_vartype :: vartype
  snv_ref :: "char option"
  snv_alt :: "char option"
  snv_filter :: string
  snv_qry_id :: string
  snv_qry_pos :: "int option"
  snv_qry_end :: "int option"
  snv_qry_rev :: bool
  snv_call_source :: string
  snv_var_score :: 's
  snv_align_source :: "nat list"
  snv_align_score :: 's

record 's insdel_row =
  v_chrom :: string
  v_pos :: int
  v_end :: int
  v_vartype :: vartype
  v_varlen :: nat
  v_filter :: string
  v_qry_id :: string
  v_qry_pos :: int
  v_qry_end :: int
  v_qry_rev :: bool
  v_call_source :: string
  v_var_score :: 's
  v_align_source :: "nat list"
  v_seq :: string
  v_align_score :: 's

subsection \<open>SNV rows of one record (lines 203 to 253)\<close>

definition qry_shift :: "bool \<Rightarrow> int" where
  "qry_shift is_rev = (if is_rev then 1 else 0)"

definition snv_row_of ::
  "'s env \<Rightarrow> string \<Rightarrow> string \<Rightarrow> 's align_record \<Rightarrow> op_row \<Rightarrow> int option \<Rightarrow> error + 's snv_row" where
  "snv_row_of env seq_ref seq_qry a r offset_pos =
     (let pos = map_option (\<lambda>k. o_pos r + k) offset_pos;
          qry_pos = map_option
            (\<lambda>k. o_qry_pos r + k + (int (o_len r) - 2 * k - 1) * qry_shift (a_is_rev a)) offset_pos
      in case map_elements (py_getitem seq_ref) pos of
           Inl e \<Rightarrow> Inl e
         | Inr ref \<Rightarrow>
             (case map_elements (py_getitem seq_qry) qry_pos of
                Inl e \<Rightarrow> Inl e
              | Inr alt \<Rightarrow> Inr
                  \<lparr>snv_chrom = a_chrom a, snv_pos = pos, snv_end = map_option (\<lambda>p. p + 1) pos,
                   snv_vartype = SNV, snv_ref = ref,
                   snv_alt = (if a_is_rev a
                              then map_option (replace_values COMPL_TR_FROM COMPL_TR_TO) alt
                              else alt),
                   snv_filter = a_filter a, snv_qry_id = a_qry_id a,
                   snv_qry_pos = qry_pos, snv_qry_end = map_option (\<lambda>p. p + 1) qry_pos,
                   snv_qry_rev = a_is_rev a, snv_call_source = CALL_SOURCE,
                   snv_var_score = e_mismatch env 1,
                   snv_align_source = [a_align_index a], snv_align_score = a_score a\<rparr>))"

definition snv_rows_of_op ::
  "'s env \<Rightarrow> string \<Rightarrow> string \<Rightarrow> 's align_record \<Rightarrow> op_row \<Rightarrow> (error + 's snv_row) list" where
  "snv_rows_of_op env seq_ref seq_qry a r =
     map (snv_row_of env seq_ref seq_qry a r) (int_ranges_explode (o_len r))"

definition snv_table ::
  "'s env \<Rightarrow> string \<Rightarrow> string \<Rightarrow> 's align_record \<Rightarrow> op_row list \<Rightarrow> error + 's snv_row list" where
  "snv_table env seq_ref seq_qry a df =
     collect (concat (map (snv_rows_of_op env seq_ref seq_qry a)
       (filter (\<lambda>r. o_code r = Op_X) df)))"

subsection \<open>INS and DEL rows of one record (lines 256 to 305)\<close>

definition get_ins_seq :: "(char \<Rightarrow> char) \<Rightarrow> bool \<Rightarrow> string \<Rightarrow> int \<Rightarrow> int \<Rightarrow> string" where
  "get_ins_seq compl is_rev seq_qry qry_pos qry_end =
     (if is_rev then reverse_complement compl (py_slice seq_qry qry_pos qry_end)
      else py_slice seq_qry qry_pos qry_end)"

definition ins_row_of :: "'s env \<Rightarrow> string \<Rightarrow> 's align_record \<Rightarrow> op_row \<Rightarrow> 's insdel_row" where
  "ins_row_of env seq_qry a r =
     \<lparr>v_chrom = a_chrom a, v_pos = o_pos r, v_end = o_pos r + 1,
      v_vartype = INS, v_varlen = o_len r,
      v_filter = a_filter a, v_qry_id = a_qry_id a,
      v_qry_pos = o_qry_pos r, v_qry_end = o_qry_end r,
      v_qry_rev = a_is_rev a, v_call_source = CALL_SOURCE,
      v_var_score = e_gap env (o_len r), v_align_source = [a_align_index a],
      v_seq = get_ins_seq (e_complement env) (a_is_rev a) seq_qry (o_qry_pos r) (o_qry_end r),
      v_align_score = a_score a\<rparr>"

definition del_row_of :: "'s env \<Rightarrow> string \<Rightarrow> 's align_record \<Rightarrow> op_row \<Rightarrow> 's insdel_row" where
  "del_row_of env seq_ref a r =
     \<lparr>v_chrom = a_chrom a, v_pos = o_pos r, v_end = o_end r,
      v_vartype = DEL, v_varlen = o_len r,
      v_filter = a_filter a, v_qry_id = a_qry_id a,
      v_qry_pos = o_qry_pos r, v_qry_end = o_qry_pos r + 1,
      v_qry_rev = a_is_rev a, v_call_source = CALL_SOURCE,
      v_var_score = e_gap env (o_len r), v_align_source = [a_align_index a],
      v_seq = py_slice seq_ref (o_pos r) (o_end r),
      v_align_score = a_score a\<rparr>"

definition df_ins :: "'s env \<Rightarrow> string \<Rightarrow> 's align_record \<Rightarrow> op_row list \<Rightarrow> 's insdel_row list" where
  "df_ins env seq_qry a df = map (ins_row_of env seq_qry a) (filter (\<lambda>r. o_code r = Op_I) df)"

definition df_del :: "'s env \<Rightarrow> string \<Rightarrow> 's align_record \<Rightarrow> op_row list \<Rightarrow> 's insdel_row list" where
  "df_del env seq_ref a df = map (del_row_of env seq_ref a) (filter (\<lambda>r. o_code r = Op_D) df)"

text \<open>
  The sorts of the source are \<open>sort(by, descending)\<close> of the data-frame library, which
  does not keep the order of rows with equal keys. The model sorts by insertion; nothing
  below depends on the order of rows with equal keys. Nulls sort first, as \<open>None\<close> does.
\<close>

definition insdel_record_key ::
  "('s::linorder) insdel_row \<Rightarrow> int \<times> int \<times> 's desc \<times> string \<times> int" where
  "insdel_record_key r = (v_pos r, v_end r, Desc (v_align_score r), v_qry_id r, v_qry_pos r)"

definition insdel_table ::
  "('s::linorder) env \<Rightarrow> string \<Rightarrow> string \<Rightarrow> 's align_record \<Rightarrow> op_row list \<Rightarrow> 's insdel_row list" where
  "insdel_table env seq_ref seq_qry a df =
     sort_key insdel_record_key (df_ins env seq_qry a df @ df_del env seq_ref a df)"

subsection \<open>One record, one chromosome (lines 125 to 355)\<close>

definition record_tables ::
  "('s::linorder) env \<Rightarrow> string \<Rightarrow> 's align_record \<Rightarrow> error + ('s snv_row list \<times> 's insdel_row list)" where
  "record_tables env seq_ref a =
     (case e_qry_cache env (a_qry_id a) of
        None \<Rightarrow> Inl (KeyError (a_qry_id a))
      | Some seq_qry \<Rightarrow>
          (let df = op_table (a_is_rev a) (int (length seq_qry)) (a_pos a) (a_align_ops a)
           in case snv_table env seq_ref seq_qry a df of
                Inl e \<Rightarrow> Inl e
              | Inr snv \<Rightarrow> Inr (snv, insdel_table env seq_ref seq_qry a df)))"

definition snv_sort_key ::
  "('s::linorder) snv_row \<Rightarrow> int option \<times> char option \<times> 's desc \<times> 's desc \<times> string \<times> int option" where
  "snv_sort_key r =
     (snv_pos r, snv_alt r, Desc (snv_var_score r), Desc (snv_align_score r),
      snv_qry_id r, snv_qry_pos r)"

definition insdel_sort_key ::
  "('s::linorder) insdel_row \<Rightarrow> int \<times> 's desc \<times> 's desc \<times> string \<times> int" where
  "insdel_sort_key r =
     (v_pos r, Desc (v_var_score r), Desc (v_align_score r), v_qry_id r, v_qry_pos r)"

text \<open>\<open>pl.concat\<close> of a list of frames raises on the empty list.\<close>

definition pl_concat :: "'a list list \<Rightarrow> error + 'a list" where
  "pl_concat frames =
     (if frames = [] then Inl (ValueError ''cannot concat empty list'') else Inr (concat frames))"

definition records_of_chrom :: "'s align_record list \<Rightarrow> string \<Rightarrow> 's align_record list" where
  "records_of_chrom df_align chrom =
     sort_key a_qry_id (filter (\<lambda>a. a_chrom a = chrom) df_align)"

definition chrom_tables ::
  "('s::linorder) env \<Rightarrow> 's align_record list \<Rightarrow> string \<Rightarrow>
     error + ('s snv_row list \<times> 's insdel_row list)" where
  "chrom_tables env df_align chrom =
     (case e_ref_cache env chrom of
        None \<Rightarrow> Inl (KeyError chrom)
      | Some seq_ref \<Rightarrow>
          (case collect (map (record_tables env seq_ref) (records_of_chrom df_align chrom)) of
             Inl e \<Rightarrow> Inl e
           | Inr df_chrom_list \<Rightarrow>
               (case pl_concat (map fst df_chrom_list) of
                  Inl e \<Rightarrow> Inl e
                | Inr snv \<Rightarrow>
                    (case pl_concat (map snd df_chrom_list) of
                       Inl e \<Rightarrow> Inl e
                     | Inr insdel \<Rightarrow>
                         Inr (sort_key snv_sort_key snv, sort_key insdel_sort_key insdel)))))"

subsection \<open>The pipeline over all chromosomes (lines 106 to 361)\<close>

text \<open>
  With a temporary directory, the two tables of a chromosome are written there as parquet
  files and scanned back for the result; a scan yields the table that was written. The
  files written are logged in order. \<open>is_dir\<close> is \<open>os.path.isdir\<close> on the file system
  the call meets.
\<close>

datatype 's spill_file =
  Snv_parquet string "'s snv_row list"
| Insdel_parquet string "'s insdel_row list"

definition path_join :: "string \<Rightarrow> string \<Rightarrow> string" where
  "path_join d f = (if d = [] \<or> last d = CHR ''/'' then d @ f else d @ ''/'' @ f)"

definition temp_file_name_snv :: "string \<Rightarrow> string \<Rightarrow> string" where
  "temp_file_name_snv temp_dir_name chrom = path_join temp_dir_name (''snv_'' @ chrom @ ''.parquet'')"

definition temp_file_name_insdel :: "string \<Rightarrow> string \<Rightarrow> string" where
  "temp_file_name_insdel temp_dir_name chrom =
     path_join temp_dir_name (''insdel_'' @ chrom @ ''.parquet'')"

definition spill ::
  "string option \<Rightarrow> string \<Rightarrow> 's snv_row list \<Rightarrow> 's insdel_row list \<Rightarrow> 's spill_file list" where
  "spill temp_dir_name chrom snv insdel =
     (case temp_dir_name of
        None \<Rightarrow> []
      | Some d \<Rightarrow> [Snv_parquet (temp_file_name_snv d chrom) snv,
                    Insdel_parquet (temp_file_name_insdel d chrom) insdel])"

text \<open>
  The loop over the chromosomes. An exception in a chromosome ends the call; the files of
  the chromosomes before it have been written.
\<close>

fun run_chroms ::
  "('s::linorder) env \<Rightarrow> string option \<Rightarrow> 's align_record list \<Rightarrow> string list \<Rightarrow>
     (error + ('s snv_row list list \<times> 's insdel_row list list)) \<times> 's spill_file list" where
  "run_chroms env temp_dir_name df_align [] = (Inr ([], []), [])"
| "run_chroms env temp_dir_name df_align (chrom # rest) =
     (case chrom_tables env df_align chrom of
        Inl e \<Rightarrow> (Inl e, [])
      | Inr (snv, insdel) \<Rightarrow>
          (case run_chroms env temp_dir_name df_align rest of
             (Inl e, written) \<Rightarrow> (Inl e, spill temp_dir_name chrom snv insdel @ written)
           | (Inr (snvs, insdels), written) \<Rightarrow>
               (Inr (snv # snvs, insdel # insdels),
                spill temp_dir_name chrom snv insdel @ written)))"

definition chrom_list :: "'s align_record list \<Rightarrow> string list" where
  "chrom_list df_align = sort (remdups (map a_chrom df_align))"

text \<open>The check of the temporary directory (lines 108 to 110): the error it raises, if any.\<close>

definition check_temp_dir :: "(string \<Rightarrow> bool) \<Rightarrow> string option \<Rightarrow> error option" where
  "check_temp_dir is_dir temp_dir_name =
     (case temp_dir_name of
        None \<Rightarrow> None
      | Some d \<Rightarrow>
          if \<not> is_dir d
          then Some (ValueError (''Temporary directory does not exist or is not a directory: '' @ d))
          else None)"

definition variant_tables_snv_insdel ::
  "('s::linorder) env \<Rightarrow> (string \<Rightarrow> bool) \<Rightarrow> 's align_record list \<Rightarrow> string option \<Rightarrow>
     (error + ('s snv_row list \<times> 's insdel_row list)) \<times> 's spill_file list" where
  "variant_tables_snv_insdel env is_dir df_align temp_dir_name =
     (let chroms = chrom_list df_align
      in case check_temp_dir is_dir temp_dir_name of
           Some e \<Rightarrow> (Inl e, [])
         | None \<Rightarrow>
             (case run_chroms env temp_dir_name df_align chroms of
                (Inl e, written) \<Rightarrow> (Inl e, written)
              | (Inr (snvs, insdels), written) \<Rightarrow>
                  (case pl_concat snvs of
                     Inl e \<Rightarrow> (Inl e, written)
                   | Inr snv \<Rightarrow>
                       (case pl_concat insdels of
                          Inl e \<Rightarrow> (Inl e, written)
                        | Inr insdel \<Rightarrow> (Inr (snv, insdel), written)))))"

subsection \<open>The order of the result, in the words of the specification\<close>

text \<open>
  The sort keys of the specification, to be compared with the sorts of the source: a
  row \<open>a\<close> may stand before a row \<open>b\<close> when the first column in which they differ puts
  \<open>a\<close> first. SNV: \<open>pos\<close> ascending, \<open>alt\<close> ascending, \<open>var_score\<close> descending, alignment
  score descending, \<open>qry_id\<close> ascending, \<open>qry_pos\<close> ascending. INS/DEL: the same without
  \<open>alt\<close>. A null stands before every value.
\<close>

definition snv_before :: "('s::linorder) snv_row \<Rightarrow> 's snv_row \<Rightarrow> bool" where
  "snv_before a b \<longleftrightarrow>
     snv_pos a < snv_pos b \<or> (snv_pos a = snv_pos b \<and>
    (snv_alt a < snv_alt b \<or> (snv_alt a = snv_alt b \<and>
    (snv_var_score b < snv_var_score a \<or> (snv_var_score a = snv_var_score b \<and>
    (snv_align_score b < snv_align_score a \<or> (snv_align_score a = snv_align_score b \<and>
    (snv_qry_id a < snv_qry_id b \<or> (snv_qry_id a = snv_qry_id b \<and>
     snv_qry_pos a \<le> snv_qry_pos b)))))))))"

definition insdel_before :: "('s::linorder) insdel_row \<Rightarrow> 's insdel_row \<Rightarrow> bool" where
  "insdel_before a b \<longleftrightarrow>
     v_pos a < v_pos b \<or> (v_pos a = v_pos b \<and>
    (v_var_score b < v_var_score a \<or> (v_var_score a = v_var_score b \<and>
    (v_align_score b < v_align_score a \<or> (v_align_score a = v_align_score b \<and>
    (v_qry_id a < v_qry_id b \<or> (v_qry_id a = v_qry_id b \<and>
     v_qry_pos a \<le> v_qry_pos b)))))))"

subsection \<open>Inversion candidates and inversions (lines 364 to 512)\<close>

text \<open>
  Modelled from the spec: \<open>schema.cast\<close> of \<open>pav3.schema\<close>, which is not among the
  sources, brings a table to the common superschema of the outputs: it sets column types
  and adds null columns for the columns a variant type lacks. It keeps the rows and their
  values, nulls too; on typed rows it is the identity.
\<close>

definition schema_cast :: "'a \<Rightarrow> 'a" where
  "schema_cast df = df"

text \<open>
  A row of the table of the clustering collaborator \<open>cluster_table\<close>; the column
  \<open>flag\<close> holds a list of strings. The collaborator is a parameter.
\<close>

record cluster_row =
  c_chrom :: string
  c_pos :: int
  c_end :: int
  c_align_index :: nat
  c_flag :: "string list"


text \<open>
  A row of the collaborator \<open>try_intra_region\<close>, which is a parameter: it answers a
  flagged region with an inversion row or with nothing.
\<close>

record inv_row =
  i_chrom :: string
  i_pos :: int
  i_end :: int
  i_varlen :: nat
  i_qry_id :: string
  i_qry_pos :: int
  i_qry_end :: int
  i_qry_rev :: bool
  i_align_source :: "nat list"

record inv_variant = inv_row +
  i_call_source :: string
  i_filter :: "string option"

definition list_first :: "'a list \<Rightarrow> 'a option" where
  "list_first xs = (case xs of [] \<Rightarrow> None | x # _ \<Rightarrow> Some x)"

definition with_filter :: "inv_row \<Rightarrow> string option \<Rightarrow> inv_variant" where
  "with_filter r f = inv_row.extend r \<lparr>i_call_source = CALL_SOURCE, i_filter = f\<rparr>"

text \<open>
  The left join of the inversion rows with the columns \<open>align_index\<close> and \<open>filter\<close> of
  the alignment table, on the first element of \<open>align_source\<close>: a left row is kept once
  for every alignment record with its key, and once with a null \<open>filter\<close> when there is
  none. A null key (an empty \<open>align_source\<close>) matches nothing.
\<close>

definition join_matches :: "'s align_record list \<Rightarrow> inv_row \<Rightarrow> 's align_record list" where
  "join_matches df_align r =
     (case list_first (i_align_source r) of
        None \<Rightarrow> []
      | Some k \<Rightarrow> filter (\<lambda>a. a_align_index a = k) df_align)"

definition left_join_filter :: "inv_row list \<Rightarrow> 's align_record list \<Rightarrow> inv_variant list" where
  "left_join_filter rows df_align =
     concat (map (\<lambda>r. case join_matches df_align r of
                          [] \<Rightarrow> [with_filter r None]
                        | m # ms \<Rightarrow> map (\<lambda>a. with_filter r (Some (a_filter a))) (m # ms))
                 rows)"

definition variant_tables_inv ::
  "(cluster_row \<Rightarrow> inv_row option) \<Rightarrow> 's align_record list \<Rightarrow> cluster_row list \<Rightarrow> inv_variant list" where
  "variant_tables_inv try_intra_region df_align df_flag =
     (let variant_table_list = List.map_filter try_intra_region df_flag
      in schema_cast (left_join_filter variant_table_list df_align))"

subsection \<open>Example inputs\<close>

text \<open>
  Two chromosomes, two query contigs, a forward and a reverse record on \<open>chr1\<close> and a
  forward record on \<open>chr2\<close>; a cluster table and an inversion detector. The properties
  below are run on them.
\<close>

definition ex_env :: "int env" where
  "ex_env = \<lparr>e_ref_cache = map_of [(''chr1'', ''ACGTACGTAC''), (''chr2'', ''GGCC'')],
             e_qry_cache = map_of [(''q1'', ''TTGACCA''), (''q2'', ''ACGT''), (''q3'', ''ACGR'')],
             e_mismatch = (\<lambda>n. - int n), e_gap = (\<lambda>n. - 2 - int n),
             e_complement = replace_values ''ATCG'' ''TAGC''\<rparr>"

definition ex_fwd :: "int align_record" where
  "ex_fwd = \<lparr>a_align_index = 0, a_chrom = ''chr1'', a_pos = 2, a_qry_id = ''q1'',
             a_is_rev = False, a_score = 10, a_filter = ''PASS'',
             a_align_ops = [(Op_EQ, 1), (Op_X, 2), (Op_I, 2), (Op_D, 3), (Op_EQ, 2)]\<rparr>"

definition ex_rev :: "int align_record" where
  "ex_rev = \<lparr>a_align_index = 1, a_chrom = ''chr1'', a_pos = 0, a_qry_id = ''q2'',
             a_is_rev = True, a_score = 7, a_filter = ''PASS'',
             a_align_ops = [(Op_X, 2), (Op_I, 1), (Op_D, 2), (Op_EQ, 1)]\<rparr>"

definition ex_chr2 :: "int align_record" where
  "ex_chr2 = \<lparr>a_align_index = 2, a_chrom = ''chr2'', a_pos = 0, a_qry_id = ''q2'',
             a_is_rev = False, a_score = 5, a_filter = ''PASS'',
             a_align_ops = [(Op_EQ, 1), (Op_X, 1), (Op_EQ, 2)]\<rparr>"




definition ex_cluster_rows :: "cluster_row list" where
  "ex_cluster_rows =
     [\<lparr>c_chrom = ''chr1'', c_pos = 10, c_end = 20, c_align_index = 0, c_flag = [''CLUSTER_SNV'']\<rparr>,
      \<lparr>c_chrom = ''chr1'', c_pos = 30, c_end = 50, c_align_index = 0, c_flag = [''MATCH_INDEL'']\<rparr>,
      \<lparr>c_chrom = ''chr2'', c_pos = 5, c_end = 9, c_align_index = 2,
       c_flag = [''CLUSTER_SNV'', ''CLUSTER_INDEL'']\<rparr>]"

definition ex_try_intra_region :: "cluster_row \<Rightarrow> inv_row option" where
  "ex_try_intra_region c =
     (if c_flag c = [''CLUSTER_SNV''] then None
      else Some \<lparr>i_chrom = c_chrom c, i_pos = c_pos c, i_end = c_end c,
                 i_varlen = nat (c_end c - c_pos c), i_qry_id = ''q1'',
                 i_qry_pos = 0, i_qry_end = c_end c - c_pos c, i_qry_rev = False,
                 i_align_source = [c_align_index c + 2]\<rparr>)"

section \<open>Properties\<close>

subsection \<open>The temporary directory\<close>

text \<open>
  C9. When a temporary directory name is given and it is not a directory, the call ends
  with the \<open>ValueError\<close> of line 110, whatever the alignment table and the sequence
  caches are: no chromosome is processed, no sequence is fetched, no row is produced and
  no file is written.
\<close>

theorem missing_temp_dir_is_fatal:
  assumes "\<not> is_dir d"
  shows "variant_tables_snv_insdel env is_dir df_align (Some d) =
           (Inl (ValueError (''Temporary directory does not exist or is not a directory: '' @ d)), [])"
  using assms by (simp add: variant_tables_snv_insdel_def check_temp_dir_def)

theorem missing_temp_dir_is_fatal_witness:
  "variant_tables_snv_insdel ex_env (\<lambda>p. p = ''/scratch'') [ex_chr2, ex_fwd, ex_rev] (Some ''/nowhere'') =
     (Inl (ValueError ''Temporary directory does not exist or is not a directory: /nowhere''), [])"
  using missing_temp_dir_is_fatal
    [of "\<lambda>p. p = ''/scratch''" "''/nowhere''" ex_env "[ex_chr2, ex_fwd, ex_rev]"]
  by simp

subsection \<open>The inversion flagger\<close>



subsection \<open>The filter of an inversion\<close>

lemma join_matches_iff:
  "a \<in> set (join_matches df_align r) \<longleftrightarrow>
     a \<in> set df_align \<and> list_first (i_align_source r) = Some (a_align_index a)"
  by (auto simp: join_matches_def split: option.splits)

lemma join_matches_empty_iff:
  "join_matches df_align r = [] \<longleftrightarrow>
     (\<forall>a \<in> set df_align. list_first (i_align_source r) \<noteq> Some (a_align_index a))"
  by (auto simp: join_matches_def filter_empty_conv split: option.splits)

lemma truncate_with_filter: "inv_row.truncate (with_filter r f) = r"
  by (simp add: with_filter_def inv_row.truncate_def inv_row.extend_def)

lemma i_filter_with_filter: "i_filter (with_filter r f) = f"
  by (simp add: with_filter_def inv_row.extend_def)

lemma set_join_row:
  "set (case join_matches df_align r of
          [] \<Rightarrow> [with_filter r None]
        | m # ms \<Rightarrow> map (\<lambda>a. with_filter r (Some (a_filter a))) (m # ms)) =
     (if join_matches df_align r = [] then {with_filter r None}
      else (\<lambda>a. with_filter r (Some (a_filter a))) ` set (join_matches df_align r))"
  by (cases "join_matches df_align r") simp_all

lemma set_left_join_filter:
  "v \<in> set (left_join_filter accepted df_align) \<longleftrightarrow>
      (\<exists>r \<in> set accepted.
         (join_matches df_align r = [] \<and> v = with_filter r None) \<or>
         (\<exists>a \<in> set (join_matches df_align r). v = with_filter r (Some (a_filter a))))"
proof -
  have "set (left_join_filter accepted df_align) =
      (\<Union>r \<in> set accepted.
         (if join_matches df_align r = [] then {with_filter r None}
          else (\<lambda>a. with_filter r (Some (a_filter a))) ` set (join_matches df_align r)))"
    unfolding left_join_filter_def set_concat set_map image_image set_join_row ..
  then show ?thesis by (auto split: if_splits)
qed

text \<open>
  C10. In \<open>variant_tables_inv\<close> every returned row is an accepted inversion row with a
  \<open>filter\<close> from the left join on the first element of \<open>align_source\<close>: the \<open>filter\<close> of
  an alignment record with that \<open>align_index\<close>, or null when there is none. An accepted
  row whose first \<open>align_source\<close> element is the \<open>align_index\<close> of no alignment record is
  returned, and with a null \<open>filter\<close> only. The function has no failure of its own.
\<close>

theorem inv_filter_is_left_join:
  fixes df_align :: "'s align_record list"
  shows "(let accepted = List.map_filter try_intra_region df_flag;
        out = variant_tables_inv try_intra_region df_align df_flag
    in (\<forall>v \<in> set out. \<exists>r \<in> set accepted. v = with_filter r (i_filter v) \<and>
          (case i_filter v of
             None \<Rightarrow> \<forall>a \<in> set df_align. list_first (i_align_source r) \<noteq> Some (a_align_index a)
           | Some f \<Rightarrow> \<exists>a \<in> set df_align.
               list_first (i_align_source r) = Some (a_align_index a) \<and> a_filter a = f))
     \<and> (\<forall>r \<in> set accepted.
          (\<forall>a \<in> set df_align. list_first (i_align_source r) \<noteq> Some (a_align_index a)) \<longrightarrow>
          with_filter r None \<in> set out \<and>
          (\<forall>v \<in> set out. inv_row.truncate v = r \<longrightarrow> i_filter v = None)))"
proof -
  define accepted where "accepted = List.map_filter try_intra_region df_flag"
  define out where "out = variant_tables_inv try_intra_region df_align df_flag"
  have out: "out = left_join_filter accepted df_align"
    by (simp add: out_def accepted_def variant_tables_inv_def schema_cast_def)
  have mem: "v \<in> set out \<longleftrightarrow>
      (\<exists>r \<in> set accepted.
         (join_matches df_align r = [] \<and> v = with_filter r None) \<or>
         (\<exists>a \<in> set (join_matches df_align r). v = with_filter r (Some (a_filter a))))" for v
    unfolding out by (rule set_left_join_filter)
  have p1: "\<exists>r \<in> set accepted. v = with_filter r (i_filter v) \<and>
          (case i_filter v of
             None \<Rightarrow> \<forall>a \<in> set df_align. list_first (i_align_source r) \<noteq> Some (a_align_index a)
           | Some f \<Rightarrow> \<exists>a \<in> set df_align.
               list_first (i_align_source r) = Some (a_align_index a) \<and> a_filter a = f)"
    if "v \<in> set out" for v
  proof -
    from that obtain r where r: "r \<in> set accepted"
      and c: "(join_matches df_align r = [] \<and> v = with_filter r None) \<or>
         (\<exists>a \<in> set (join_matches df_align r). v = with_filter r (Some (a_filter a)))"
      unfolding mem by blast
    from c show ?thesis
    proof
      assume "join_matches df_align r = [] \<and> v = with_filter r None"
      with r show ?thesis
        by (auto simp: i_filter_with_filter join_matches_empty_iff intro!: bexI [of _ r])
    next
      assume "\<exists>a \<in> set (join_matches df_align r). v = with_filter r (Some (a_filter a))"
      then obtain a where "a \<in> set (join_matches df_align r)" "v = with_filter r (Some (a_filter a))"
        by blast
      with r show ?thesis
        by (auto simp: i_filter_with_filter join_matches_iff intro!: bexI [of _ r] bexI [of _ a])
    qed
  qed
  have p2: "with_filter r None \<in> set out \<and>
          (\<forall>v \<in> set out. inv_row.truncate v = r \<longrightarrow> i_filter v = None)"
    if r: "r \<in> set accepted"
      and n: "\<forall>a \<in> set df_align. list_first (i_align_source r) \<noteq> Some (a_align_index a)" for r
  proof -
    from n have e: "join_matches df_align r = []" by (simp add: join_matches_empty_iff)
    with r have "with_filter r None \<in> set out" unfolding mem by blast
    moreover have "i_filter v = None" if "v \<in> set out" "inv_row.truncate v = r" for v
    proof -
      from that(1) obtain r' where "r' \<in> set accepted"
        and c: "(join_matches df_align r' = [] \<and> v = with_filter r' None) \<or>
         (\<exists>a \<in> set (join_matches df_align r'). v = with_filter r' (Some (a_filter a)))"
        unfolding mem by blast
      from c that(2) have "r' = r" by (auto simp: truncate_with_filter)
      with c e show ?thesis by (auto simp: i_filter_with_filter)
    qed
    ultimately show ?thesis by blast
  qed
  from p1 p2 show ?thesis
    unfolding Let_def accepted_def [symmetric] out_def [symmetric] by blast
qed

theorem inv_filter_is_left_join_witness:
  "with_filter (the (ex_try_intra_region (ex_cluster_rows ! 2))) None
     \<in> set (variant_tables_inv ex_try_intra_region [ex_chr2, ex_fwd, ex_rev] ex_cluster_rows)
   \<and> map i_filter (variant_tables_inv ex_try_intra_region [ex_chr2, ex_fwd, ex_rev] ex_cluster_rows)
       = [Some ''PASS'', None]"
proof -
  let ?r = "the (ex_try_intra_region (ex_cluster_rows ! 2))"
  have a: "?r \<in> set (List.map_filter ex_try_intra_region ex_cluster_rows)"
    by code_simp
  have n: "\<forall>a \<in> set [ex_chr2, ex_fwd, ex_rev].
             list_first (i_align_source ?r) \<noteq> Some (a_align_index a)"
    by code_simp
  have m: "map i_filter (variant_tables_inv ex_try_intra_region [ex_chr2, ex_fwd, ex_rev] ex_cluster_rows)
       = [Some ''PASS'', None]"
    by code_simp
  from inv_filter_is_left_join [of ex_try_intra_region ex_cluster_rows "[ex_chr2, ex_fwd, ex_rev]"] a n
  have "with_filter ?r None
     \<in> set (variant_tables_inv ex_try_intra_region [ex_chr2, ex_fwd, ex_rev] ex_cluster_rows)"
    unfolding Let_def by blast
  with m show ?thesis by blast
qed

subsection \<open>The operation table\<close>








subsection \<open>The coordinates of the SNV rows\<close>

lemma length_int_ranges_explode: "0 < n \<Longrightarrow> length (int_ranges_explode n) = n"
  by (simp add: int_ranges_explode_def)

lemma nth_int_ranges_explode: "k < n \<Longrightarrow> int_ranges_explode n ! k = Some (int k)"
  by (simp add: int_ranges_explode_def)

lemma snv_row_of_coords:
  assumes "snv_row_of env seq_ref seq_qry a r offset_pos = Inr row"
  shows "snv_pos row = map_option (\<lambda>k. o_pos r + k) offset_pos"
    and "snv_qry_pos row = map_option
            (\<lambda>k. o_qry_pos r + k + (int (o_len r) - 2 * k - 1) * qry_shift (a_is_rev a)) offset_pos"
    and "snv_end row = map_option (\<lambda>p. p + 1) (snv_pos row)"
    and "snv_qry_end row = map_option (\<lambda>p. p + 1) (snv_qry_pos row)"
  using assms by (auto simp: snv_row_of_def Let_def split: sum.splits)

text \<open>
  C1, as amended. For a record with \<open>is_rev\<close>, a mismatch operation of length \<open>L\<close>
  whose row of the remapped operation table has the coordinates \<open>(pos, qry_pos)\<close> is
  expanded into \<open>L\<close> rows, and the row for the offset \<open>o < L\<close> has \<open>pos' = pos + o\<close> and
  \<open>qry_pos' = qry_pos + o + (L - 2o - 1)\<close>, which is \<open>qry_pos + (L - o - 1)\<close>, with
  \<open>end' = pos' + 1\<close> and \<open>qry_end' = qry_pos' + 1\<close>.
\<close>

theorem snv_reverse_offsets:
  assumes "a_is_rev a" and "k < o_len r"
    and "snv_rows_of_op env seq_ref seq_qry a r ! k = Inr row"
  shows "length (snv_rows_of_op env seq_ref seq_qry a r) = o_len r
    \<and> snv_pos row = Some (o_pos r + int k)
    \<and> snv_qry_pos row = Some (o_qry_pos r + int k + (int (o_len r) - 2 * int k - 1))
    \<and> snv_qry_pos row = Some (o_qry_pos r + (int (o_len r) - int k - 1))
    \<and> snv_end row = Some (o_pos r + int k + 1)
    \<and> snv_qry_end row = Some (o_qry_pos r + (int (o_len r) - int k - 1) + 1)"
proof -
  from assms(2) have len: "length (snv_rows_of_op env seq_ref seq_qry a r) = o_len r"
    by (simp add: snv_rows_of_op_def length_int_ranges_explode)
  from assms(2,3) have "snv_row_of env seq_ref seq_qry a r (Some (int k)) = Inr row"
    by (simp add: snv_rows_of_op_def length_int_ranges_explode nth_int_ranges_explode)
  from snv_row_of_coords [OF this] assms(1) len show ?thesis
    by (simp add: qry_shift_def)
qed

theorem snv_reverse_offsets_witness:
  "length (snv_rows_of_op ex_env ''ACGTACGTAC'' ''ACGT'' ex_rev (hd (op_table True 4 0 (a_align_ops ex_rev)))) = 2
   \<and> map_sum id snv_qry_pos
       (snv_rows_of_op ex_env ''ACGTACGTAC'' ''ACGT'' ex_rev (hd (op_table True 4 0 (a_align_ops ex_rev))) ! 1)
       = Inr (Some 2)
   \<and> map_sum id snv_pos
       (snv_rows_of_op ex_env ''ACGTACGTAC'' ''ACGT'' ex_rev (hd (op_table True 4 0 (a_align_ops ex_rev))) ! 1)
       = Inr (Some 1)"
proof -
  let ?r = "hd (op_table True 4 0 (a_align_ops ex_rev))"
  have "\<not> isl (snv_rows_of_op ex_env ''ACGTACGTAC'' ''ACGT'' ex_rev ?r ! 1)"
    by code_simp
  then obtain row where row: "snv_rows_of_op ex_env ''ACGTACGTAC'' ''ACGT'' ex_rev ?r ! 1 = Inr row"
    by (cases "snv_rows_of_op ex_env ''ACGTACGTAC'' ''ACGT'' ex_rev ?r ! 1") auto
  have h: "a_is_rev ex_rev" "1 < o_len ?r"
    by code_simp+
  have r: "o_len ?r = 2" "o_qry_pos ?r = 2" "o_pos ?r = 0"
    by code_simp+
  from snv_reverse_offsets [OF h row] r
  have "length (snv_rows_of_op ex_env ''ACGTACGTAC'' ''ACGT'' ex_rev ?r) = 2"
    "snv_qry_pos row = Some 2" "snv_pos row = Some 1"
    by simp_all
  then show ?thesis unfolding row by simp
qed

text \<open>
  The claim as written has \<open>qry_pos' = qry_pos + (L - 2o - 1)\<close>. The reverse record of
  the examples starts with a mismatch of length 2 at the remapped \<open>qry_pos = 2\<close>; its row
  for the offset 1 has \<open>qry_pos' = 2\<close>, not \<open>2 + (2 - 2 - 1) = 1\<close>.
\<close>

theorem snv_reverse_offsets_counterexample:
  "a_is_rev ex_rev
   \<and> o_code (hd (op_table True 4 0 (a_align_ops ex_rev))) = Op_X
   \<and> o_len (hd (op_table True 4 0 (a_align_ops ex_rev))) = 2
   \<and> o_qry_pos (hd (op_table True 4 0 (a_align_ops ex_rev))) = 2
   \<and> map_sum id snv_qry_pos
       (snv_rows_of_op ex_env ''ACGTACGTAC'' ''ACGT'' ex_rev (hd (op_table True 4 0 (a_align_ops ex_rev))) ! 1)
       = Inr (Some 2)
   \<and> map_sum id snv_qry_pos
       (snv_rows_of_op ex_env ''ACGTACGTAC'' ''ACGT'' ex_rev (hd (op_table True 4 0 (a_align_ops ex_rev))) ! 1)
       \<noteq> Inr (Some (o_qry_pos (hd (op_table True 4 0 (a_align_ops ex_rev)))
                        + (int (o_len (hd (op_table True 4 0 (a_align_ops ex_rev)))) - 2 * 1 - 1)))"
  by code_simp

subsection \<open>From the rows of the result to the record that yields them\<close>

lemma collect_Inr: "collect xs = Inr ys \<Longrightarrow> xs = map Inr ys"
proof (induction xs arbitrary: ys)
  case Nil
  then show ?case by simp
next
  case (Cons x xs)
  then show ?case by (cases x) (auto split: sum.splits)
qed

lemma snv_table_rows:
  assumes "snv_table env seq_ref seq_qry a df = Inr rows" and "row \<in> set rows"
  shows "\<exists>r \<in> set df. o_code r = Op_X \<and>
           (\<exists>off \<in> set (int_ranges_explode (o_len r)).
              snv_row_of env seq_ref seq_qry a r off = Inr row)"
proof -
  from collect_Inr [OF assms(1) [unfolded snv_table_def]] assms(2)
  have "Inr row \<in> set (concat (map (snv_rows_of_op env seq_ref seq_qry a)
          (filter (\<lambda>r. o_code r = Op_X) df)))"
    by simp
  then obtain r off where "r \<in> set df" "o_code r = Op_X"
    "off \<in> set (int_ranges_explode (o_len r))"
    "Inr row = snv_row_of env seq_ref seq_qry a r off"
    by (auto simp: snv_rows_of_op_def)
  then show ?thesis by (intro bexI [of _ r] conjI bexI [of _ off]) simp_all
qed

lemma record_tables_Inr:
  assumes "record_tables env seq_ref a = Inr (snv, insdel)"
  obtains seq_qry where "e_qry_cache env (a_qry_id a) = Some seq_qry"
    and "snv_table env seq_ref seq_qry a
           (op_table (a_is_rev a) (int (length seq_qry)) (a_pos a) (a_align_ops a)) = Inr snv"
    and "insdel = insdel_table env seq_ref seq_qry a
           (op_table (a_is_rev a) (int (length seq_qry)) (a_pos a) (a_align_ops a))"
  using assms by (auto simp: record_tables_def Let_def split: option.splits sum.splits)

lemma chrom_tables_Inr:
  assumes "chrom_tables env df_align chrom = Inr (snv, insdel)"
  obtains seq_ref parts where "e_ref_cache env chrom = Some seq_ref"
    and "map (record_tables env seq_ref) (records_of_chrom df_align chrom) = map Inr parts"
    and "snv = sort_key snv_sort_key (concat (map fst parts))"
    and "insdel = sort_key insdel_sort_key (concat (map snd parts))"
proof -
  from assms obtain seq_ref where r: "e_ref_cache env chrom = Some seq_ref"
    by (auto simp: chrom_tables_def split: option.splits)
  with assms obtain parts where
    p: "collect (map (record_tables env seq_ref) (records_of_chrom df_align chrom)) = Inr parts"
    by (auto simp: chrom_tables_def split: sum.splits)
  from assms r p have "snv = sort_key snv_sort_key (concat (map fst parts))"
    "insdel = sort_key insdel_sort_key (concat (map snd parts))"
    by (auto simp: chrom_tables_def pl_concat_def split: sum.splits if_splits)
  with r collect_Inr [OF p] that show thesis by blast
qed

lemma set_records_of_chrom:
  "set (records_of_chrom df_align chrom) = {a \<in> set df_align. a_chrom a = chrom}"
  by (auto simp: records_of_chrom_def)

lemma chrom_tables_snv_row:
  assumes "chrom_tables env df_align chrom = Inr (snv, insdel)" and "row \<in> set snv"
  shows "\<exists>a seq_ref s d. a \<in> set df_align \<and> a_chrom a = chrom \<and>
           e_ref_cache env chrom = Some seq_ref \<and>
           record_tables env seq_ref a = Inr (s, d) \<and> row \<in> set s"
proof -
  from assms(1) obtain seq_ref parts where r: "e_ref_cache env chrom = Some seq_ref"
    and m: "map (record_tables env seq_ref) (records_of_chrom df_align chrom) = map Inr parts"
    and s: "snv = sort_key snv_sort_key (concat (map fst parts))"
    by (rule chrom_tables_Inr)
  from s assms(2) obtain p where p: "p \<in> set parts" "row \<in> set (fst p)" by auto
  from p(1) have "Inr p \<in> set (map (record_tables env seq_ref) (records_of_chrom df_align chrom))"
    unfolding m by simp
  then obtain a where a: "a \<in> set (records_of_chrom df_align chrom)"
    "record_tables env seq_ref a = Inr p" by auto
  from a(1) have "a \<in> set df_align" "a_chrom a = chrom" by (simp_all add: set_records_of_chrom)
  with r a(2) p(2) show ?thesis by (cases p) auto
qed

lemma chrom_tables_insdel_row:
  assumes "chrom_tables env df_align chrom = Inr (snv, insdel)" and "row \<in> set insdel"
  shows "\<exists>a seq_ref s d. a \<in> set df_align \<and> a_chrom a = chrom \<and>
           e_ref_cache env chrom = Some seq_ref \<and>
           record_tables env seq_ref a = Inr (s, d) \<and> row \<in> set d"
proof -
  from assms(1) obtain seq_ref parts where r: "e_ref_cache env chrom = Some seq_ref"
    and m: "map (record_tables env seq_ref) (records_of_chrom df_align chrom) = map Inr parts"
    and s: "insdel = sort_key insdel_sort_key (concat (map snd parts))"
    by (rule chrom_tables_Inr)
  from s assms(2) obtain p where p: "p \<in> set parts" "row \<in> set (snd p)" by auto
  from p(1) have "Inr p \<in> set (map (record_tables env seq_ref) (records_of_chrom df_align chrom))"
    unfolding m by simp
  then obtain a where a: "a \<in> set (records_of_chrom df_align chrom)"
    "record_tables env seq_ref a = Inr p" by auto
  from a(1) have "a \<in> set df_align" "a_chrom a = chrom" by (simp_all add: set_records_of_chrom)
  with r a(2) p(2) show ?thesis by (cases p) auto
qed

lemma run_chroms_Inr:
  "run_chroms env temp_dir_name df_align chroms = (Inr (snvs, insdels), written) \<Longrightarrow>
     map (chrom_tables env df_align) chroms = map Inr (zip snvs insdels) \<and>
     length snvs = length chroms \<and> length insdels = length chroms"
proof (induction chroms arbitrary: snvs insdels written)
  case Nil
  then show ?case by simp
next
  case (Cons c cs)
  then show ?case
    by (auto split: sum.splits prod.splits)
qed

lemma variant_tables_Inr:
  assumes "variant_tables_snv_insdel env is_dir df_align temp_dir_name = (Inr (snv, insdel), written)"
  obtains snvs insdels where
    "map (chrom_tables env df_align) (chrom_list df_align) = map Inr (zip snvs insdels)"
    and "length snvs = length (chrom_list df_align)"
    and "length insdels = length (chrom_list df_align)"
    and "snv = concat snvs" and "insdel = concat insdels"
proof -
  from assms obtain snvs insdels where
    r: "run_chroms env temp_dir_name df_align (chrom_list df_align) = (Inr (snvs, insdels), written)"
    and c: "snv = concat snvs" "insdel = concat insdels"
    by (auto simp: variant_tables_snv_insdel_def Let_def pl_concat_def
        split: option.splits sum.splits prod.splits if_splits)
  from run_chroms_Inr [OF r] c that show thesis by blast
qed



lemma variant_tables_insdel_row:
  assumes "variant_tables_snv_insdel env is_dir df_align temp_dir_name = (Inr (snv, insdel), written)"
    and "row \<in> set insdel"
  shows "\<exists>a seq_ref s d. a \<in> set df_align \<and>
           e_ref_cache env (a_chrom a) = Some seq_ref \<and>
           record_tables env seq_ref a = Inr (s, d) \<and> row \<in> set d"
proof -
  from assms(1) obtain snvs insdels where
    m: "map (chrom_tables env df_align) (chrom_list df_align) = map Inr (zip snvs insdels)"
    and l: "length snvs = length (chrom_list df_align)" "length insdels = length (chrom_list df_align)"
    and c: "insdel = concat insdels"
    by (rule variant_tables_Inr)
  from c assms(2) obtain xs where "xs \<in> set insdels" "row \<in> set xs"
    by auto
  then obtain i where i: "i < length insdels" "row \<in> set (insdels ! i)"
    by (auto simp: in_set_conv_nth)
  from m i(1) l have "chrom_tables env df_align (chrom_list df_align ! i) = Inr (snvs ! i, insdels ! i)"
    by (metis length_map nth_map nth_zip)
  from chrom_tables_insdel_row [OF this i(2)] show ?thesis by metis
qed

lemma example_run:
  obtains snv insdel where
    "variant_tables_snv_insdel ex_env (\<lambda>d. True) [ex_chr2, ex_fwd, ex_rev] None = (Inr (snv, insdel), [])"
    and "snv = fst (projr (fst (variant_tables_snv_insdel ex_env (\<lambda>d. True) [ex_chr2, ex_fwd, ex_rev] None)))"
    and "insdel = snd (projr (fst (variant_tables_snv_insdel ex_env (\<lambda>d. True) [ex_chr2, ex_fwd, ex_rev] None)))"
proof -
  let ?res = "variant_tables_snv_insdel ex_env (\<lambda>d. True) [ex_chr2, ex_fwd, ex_rev] None"
  have "\<not> isl (fst ?res)" "snd ?res = []" by code_simp+
  then have "?res = (Inr (fst (projr (fst ?res)), snd (projr (fst ?res))), [])"
    by (cases ?res; cases "fst ?res") auto
  with that show thesis by blast
qed

subsection \<open>Reference and alternate base of an SNV\<close>

lemma snv_row_of_fields:
  assumes "snv_row_of env seq_ref seq_qry a r off = Inr row"
  shows "snv_chrom row = a_chrom a" and "snv_qry_id row = a_qry_id a"
    and "snv_qry_rev row = a_is_rev a"
    and "map_elements (py_getitem seq_ref) (snv_pos row) = Inr (snv_ref row)"
    and "\<exists>base. map_elements (py_getitem seq_qry) (snv_qry_pos row) = Inr base \<and>
           snv_alt row = (if a_is_rev a
                          then map_option (replace_values COMPL_TR_FROM COMPL_TR_TO) base
                          else base)"
  using assms by (auto simp: snv_row_of_def Let_def split: sum.splits)





subsection \<open>INS and DEL rows\<close>

lemma set_insdel_table:
  "row \<in> set (insdel_table env seq_ref seq_qry a df) \<longleftrightarrow>
     (\<exists>r \<in> set df. o_code r = Op_I \<and> row = ins_row_of env seq_qry a r) \<or>
     (\<exists>r \<in> set df. o_code r = Op_D \<and> row = del_row_of env seq_ref a r)"
  by (auto simp: insdel_table_def df_ins_def df_del_def)






lemma record_insdel_row:
  assumes "record_tables env seq_ref a = Inr (s, d)" and "row \<in> set d"
  obtains seq_qry r where "e_qry_cache env (a_qry_id a) = Some seq_qry"
    and "r \<in> set (op_table (a_is_rev a) (int (length seq_qry)) (a_pos a) (a_align_ops a))"
    and "o_code r = Op_I \<and> row = ins_row_of env seq_qry a r \<or>
         o_code r = Op_D \<and> row = del_row_of env seq_ref a r"
proof -
  from assms(1) obtain seq_qry where q: "e_qry_cache env (a_qry_id a) = Some seq_qry"
    and d: "d = insdel_table env seq_ref seq_qry a
           (op_table (a_is_rev a) (int (length seq_qry)) (a_pos a) (a_align_ops a))"
    by (rule record_tables_Inr)
  from assms(2) [unfolded d set_insdel_table] q that show thesis by blast
qed

text \<open>
  C4. For every INS row of the result, \<open>seq\<close> is the reverse complement of the slice
  \<open>[qry_pos:qry_end]\<close> of the row's query when \<open>qry_rev\<close> holds, and that slice unchanged
  when it does not. The complement of single bases is the one of \<open>Bio.Seq\<close>, a parameter.
\<close>

theorem ins_seq_strand:
  fixes env :: "('s::linorder) env"
  assumes "variant_tables_snv_insdel env is_dir df_align temp_dir_name = (Inr (snv, insdel), written)"
    and "row \<in> set insdel" and "v_vartype row = INS"
  shows "\<exists>seq_qry. e_qry_cache env (v_qry_id row) = Some seq_qry
         \<and> (v_qry_rev row \<longrightarrow>
              v_seq row = reverse_complement (e_complement env)
                            (py_slice seq_qry (v_qry_pos row) (v_qry_end row)))
         \<and> (\<not> v_qry_rev row \<longrightarrow>
              v_seq row = py_slice seq_qry (v_qry_pos row) (v_qry_end row))"
proof -
  from variant_tables_insdel_row [OF assms(1,2)] obtain a seq_ref s d where
    t: "record_tables env seq_ref a = Inr (s, d)" and m: "row \<in> set d"
    by blast
  from t m obtain seq_qry r where q: "e_qry_cache env (a_qry_id a) = Some seq_qry"
    and c: "o_code r = Op_I \<and> row = ins_row_of env seq_qry a r \<or>
         o_code r = Op_D \<and> row = del_row_of env seq_ref a r"
    by (rule record_insdel_row)
  from c assms(3) have "row = ins_row_of env seq_qry a r"
    by (auto simp: del_row_of_def)
  with q show ?thesis
    by (auto simp: ins_row_of_def get_ins_seq_def)
qed

theorem ins_seq_strand_witness:
  "v_qry_rev (hd (snd (projr (fst (variant_tables_snv_insdel ex_env (\<lambda>d. True) [ex_chr2, ex_fwd, ex_rev] None)))))
   \<and> v_seq (hd (snd (projr (fst (variant_tables_snv_insdel ex_env (\<lambda>d. True) [ex_chr2, ex_fwd, ex_rev] None)))))
       = reverse_complement (e_complement ex_env) (py_slice ''ACGT'' 1 2)
   \<and> reverse_complement (e_complement ex_env) (py_slice ''ACGT'' 1 2) = ''G''"
proof -
  let ?res = "variant_tables_snv_insdel ex_env (\<lambda>d. True) [ex_chr2, ex_fwd, ex_rev] None"
  let ?row = "hd (snd (projr (fst ?res)))"
  obtain snv insdel where res: "?res = (Inr (snv, insdel), [])"
    and insdel: "insdel = snd (projr (fst ?res))"
    by (rule example_run)
  have "?row \<in> set (snd (projr (fst ?res)))" by code_simp
  then have mem: "?row \<in> set insdel" by (simp only: insdel)
  have c: "v_vartype ?row = INS" "e_qry_cache ex_env (v_qry_id ?row) = Some ''ACGT''"
    "v_qry_rev ?row" "v_qry_pos ?row = 1" "v_qry_end ?row = 2"
    "reverse_complement (e_complement ex_env) (py_slice ''ACGT'' 1 2) = ''G''"
    by code_simp+
  from ins_seq_strand [OF res mem c(1)] c show ?thesis
    by auto
qed





subsection \<open>Coverage of the operations of a record\<close>










subsection \<open>The order of the result\<close>

lemma snv_sort_key_le: "snv_sort_key a \<le> snv_sort_key b \<longleftrightarrow> snv_before a b"
  by (auto simp: snv_sort_key_def snv_before_def less_eq_desc_def less_desc_def)

lemma insdel_sort_key_le: "insdel_sort_key a \<le> insdel_sort_key b \<longleftrightarrow> insdel_before a b"
  by (auto simp: insdel_sort_key_def insdel_before_def less_eq_desc_def less_desc_def)

lemma sorted_wrt_snv_before: "sorted_wrt snv_before (sort_key snv_sort_key xs)"
proof -
  have "sorted (map snv_sort_key (sort_key snv_sort_key xs))" by (rule sorted_sort_key)
  then show ?thesis by (simp add: sorted_map snv_sort_key_le)
qed

lemma sorted_wrt_insdel_before: "sorted_wrt insdel_before (sort_key insdel_sort_key xs)"
proof -
  have "sorted (map insdel_sort_key (sort_key insdel_sort_key xs))" by (rule sorted_sort_key)
  then show ?thesis by (simp add: sorted_map insdel_sort_key_le)
qed

lemma in_concat_nth:
  assumes "r \<in> set (concat ss)"
  obtains i where "i < length ss" and "r \<in> set (ss ! i)"
proof -
  from assms obtain xs where "xs \<in> set ss" "r \<in> set xs" by auto
  with that show thesis by (metis in_set_conv_nth)
qed

lemma partition_concat:
  assumes "length ss = length cs" and "distinct cs"
    and "\<forall>i < length cs. \<forall>r \<in> set (ss ! i). key r = cs ! i"
  shows "map (\<lambda>c. filter (\<lambda>r. key r = c) (concat ss)) cs = ss"
  using assms
proof (induction ss cs rule: list_induct2)
  case Nil
  then show ?case by simp
next
  case (Cons s ss c cs)
  from Cons.prems(2) have h: "\<forall>r \<in> set s. key r = c"
    by (metis length_Cons nth_Cons_0 zero_less_Suc)
  have t: "\<forall>i < length cs. \<forall>r \<in> set (ss ! i). key r = cs ! i"
  proof (intro allI impI)
    fix i assume "i < length cs"
    then have "Suc i < length (c # cs)" by simp
    with Cons.prems(2) have "\<forall>r \<in> set ((s # ss) ! Suc i). key r = (c # cs) ! Suc i"
      by blast
    then show "\<forall>r \<in> set (ss ! i). key r = cs ! i" by simp
  qed
  from Cons.prems(1) have d: "c \<notin> set cs" "distinct cs" by simp_all
  have rest: "key r \<in> set cs" if "r \<in> set (concat ss)" for r
  proof -
    from that obtain i where "i < length ss" "r \<in> set (ss ! i)"
      by (rule in_concat_nth)
    with t Cons.hyps show ?thesis by (metis nth_mem)
  qed
  have first: "filter (\<lambda>r. key r = c) (concat (s # ss)) = s"
  proof -
    have "filter (\<lambda>r. key r = c) s = s" using h by (simp add: filter_id_conv)
    moreover have "filter (\<lambda>r. key r = c) (concat ss) = []"
      using rest d(1) by (auto simp: filter_empty_conv)
    ultimately show ?thesis by simp
  qed
  have others: "filter (\<lambda>r. key r = c') (concat (s # ss)) = filter (\<lambda>r. key r = c') (concat ss)"
    if "c' \<in> set cs" for c'
  proof -
    from that d(1) have "c' \<noteq> c" by blast
    with h have "filter (\<lambda>r. key r = c') s = []" by (auto simp: filter_empty_conv)
    then show ?thesis by simp
  qed
  have "map (\<lambda>c'. filter (\<lambda>r. key r = c') (concat (s # ss))) cs
      = map (\<lambda>c'. filter (\<lambda>r. key r = c') (concat ss)) cs"
    by (rule map_cong [OF refl]) (rule others)
  also have "\<dots> = ss" by (rule Cons.IH [OF d(2) t])
  finally show ?case using first by simp
qed

lemma partition_sorted:
  assumes "length ss = length cs" and "distinct cs"
    and "\<forall>i < length cs. \<forall>r \<in> set (ss ! i). key r = cs ! i"
    and "\<forall>i < length cs. sorted_wrt before (ss ! i)"
  shows "sorted_wrt before (filter (\<lambda>r. key r = c) (concat ss))"
proof (cases "c \<in> set cs")
  case True
  then obtain i where i: "i < length cs" "cs ! i = c" by (auto simp: in_set_conv_nth)
  from partition_concat [OF assms(1-3)] i
  have "filter (\<lambda>r. key r = c) (concat ss) = ss ! i"
    by (metis nth_map)
  with assms(4) i(1) show ?thesis by simp
next
  case False
  have "key r \<in> set cs" if "r \<in> set (concat ss)" for r
  proof -
    from that obtain i where "i < length ss" "r \<in> set (ss ! i)"
      by (rule in_concat_nth)
    with assms(1,3) show ?thesis by (metis nth_mem)
  qed
  with False have "filter (\<lambda>r. key r = c) (concat ss) = []"
    by (auto simp: filter_empty_conv)
  then show ?thesis by simp
qed

lemma chrom_tables_chrom:
  assumes "chrom_tables env df_align chrom = Inr (snv, insdel)"
  shows "\<forall>r \<in> set snv. snv_chrom r = chrom" and "\<forall>r \<in> set insdel. v_chrom r = chrom"
proof -
  show "\<forall>r \<in> set snv. snv_chrom r = chrom"
  proof
    fix row assume "row \<in> set snv"
    from chrom_tables_snv_row [OF assms this] obtain a seq_ref s d where
      a: "a_chrom a = chrom" and t: "record_tables env seq_ref a = Inr (s, d)" and m: "row \<in> set s"
      by blast
    from t obtain seq_qry where
      "snv_table env seq_ref seq_qry a
           (op_table (a_is_rev a) (int (length seq_qry)) (a_pos a) (a_align_ops a)) = Inr s"
      by (rule record_tables_Inr)
    from snv_table_rows [OF this m] obtain r off where
      "snv_row_of env seq_ref seq_qry a r off = Inr row" by blast
    from snv_row_of_fields(1) [OF this] a show "snv_chrom row = chrom" by simp
  qed
  show "\<forall>r \<in> set insdel. v_chrom r = chrom"
  proof
    fix row assume "row \<in> set insdel"
    from chrom_tables_insdel_row [OF assms this] obtain a seq_ref s d where
      a: "a_chrom a = chrom" and t: "record_tables env seq_ref a = Inr (s, d)" and m: "row \<in> set d"
      by blast
    from t m obtain seq_qry r where
      "o_code r = Op_I \<and> row = ins_row_of env seq_qry a r \<or>
         o_code r = Op_D \<and> row = del_row_of env seq_ref a r"
      by (rule record_insdel_row)
    with a show "v_chrom row = chrom" by (auto simp: ins_row_of_def del_row_of_def)
  qed
qed

lemma chrom_tables_sorted:
  assumes "chrom_tables env df_align chrom = Inr (snv, insdel)"
  shows "sorted_wrt snv_before snv" and "sorted_wrt insdel_before insdel"
proof -
  from assms obtain seq_ref parts where
    "snv = sort_key snv_sort_key (concat (map fst parts))"
    "insdel = sort_key insdel_sort_key (concat (map snd parts))"
    by (rule chrom_tables_Inr)
  then show "sorted_wrt snv_before snv" and "sorted_wrt insdel_before insdel"
    by (simp_all add: sorted_wrt_snv_before sorted_wrt_insdel_before)
qed

text \<open>
  C7. The chromosome list is ascending without repetition, and each table of the result
  is the concatenation, along that list, of its rows of each chromosome. Within a
  chromosome the SNV rows are ordered by \<open>pos\<close> ascending, \<open>alt\<close> ascending,
  \<open>var_score\<close> descending, alignment score descending, \<open>qry_id\<close> ascending and
  \<open>qry_pos\<close> ascending, and the INS/DEL rows by the same key without \<open>alt\<close>.
\<close>

theorem result_order:
  fixes env :: "('s::linorder) env"
  assumes "variant_tables_snv_insdel env is_dir df_align temp_dir_name = (Inr (snv, insdel), written)"
  shows "sorted (chrom_list df_align) \<and> distinct (chrom_list df_align)
    \<and> snv = concat (map (\<lambda>c. filter (\<lambda>r. snv_chrom r = c) snv) (chrom_list df_align))
    \<and> insdel = concat (map (\<lambda>c. filter (\<lambda>r. v_chrom r = c) insdel) (chrom_list df_align))
    \<and> (\<forall>c. sorted_wrt snv_before (filter (\<lambda>r. snv_chrom r = c) snv))
    \<and> (\<forall>c. sorted_wrt insdel_before (filter (\<lambda>r. v_chrom r = c) insdel))"
proof -
  let ?cs = "chrom_list df_align"
  from assms obtain snvs insdels where
    m: "map (chrom_tables env df_align) ?cs = map Inr (zip snvs insdels)"
    and l: "length snvs = length ?cs" "length insdels = length ?cs"
    and c: "snv = concat snvs" "insdel = concat insdels"
    by (rule variant_tables_Inr)
  have ct: "chrom_tables env df_align (?cs ! i) = Inr (snvs ! i, insdels ! i)" if "i < length ?cs" for i
    using m l that by (metis length_map nth_map nth_zip)
  have d: "distinct ?cs" "sorted ?cs" by (simp_all add: chrom_list_def)
  have ks: "\<forall>i < length ?cs. \<forall>r \<in> set (snvs ! i). snv_chrom r = ?cs ! i"
    using chrom_tables_chrom(1) [OF ct] by blast
  have kd: "\<forall>i < length ?cs. \<forall>r \<in> set (insdels ! i). v_chrom r = ?cs ! i"
    using chrom_tables_chrom(2) [OF ct] by blast
  have ss: "\<forall>i < length ?cs. sorted_wrt snv_before (snvs ! i)"
    using chrom_tables_sorted(1) [OF ct] by blast
  have sd: "\<forall>i < length ?cs. sorted_wrt insdel_before (insdels ! i)"
    using chrom_tables_sorted(2) [OF ct] by blast
  from partition_concat [OF l(1) d(1) ks]
  have p1: "snv = concat (map (\<lambda>c. filter (\<lambda>r. snv_chrom r = c) snv) ?cs)"
    by (simp add: c)
  from partition_concat [OF l(2) d(1) kd]
  have p2: "insdel = concat (map (\<lambda>c. filter (\<lambda>r. v_chrom r = c) insdel) ?cs)"
    by (simp add: c)
  have o1: "sorted_wrt snv_before (filter (\<lambda>r. snv_chrom r = ch) snv)" for ch
    unfolding c by (rule partition_sorted [OF l(1) d(1) ks ss])
  have o2: "sorted_wrt insdel_before (filter (\<lambda>r. v_chrom r = ch) insdel)" for ch
    unfolding c by (rule partition_sorted [OF l(2) d(1) kd sd])
  from d p1 p2 o1 o2 show ?thesis by blast
qed


theorem result_order_witness:
  "chrom_list [ex_chr2, ex_fwd, ex_rev] = [''chr1'', ''chr2'']
   \<and> sorted_wrt snv_before (filter (\<lambda>r. snv_chrom r = ''chr1'')
         (fst (projr (fst (variant_tables_snv_insdel ex_env (\<lambda>d. True) [ex_chr2, ex_fwd, ex_rev] None)))))
   \<and> sorted_wrt insdel_before (filter (\<lambda>r. v_chrom r = ''chr1'')
         (snd (projr (fst (variant_tables_snv_insdel ex_env (\<lambda>d. True) [ex_chr2, ex_fwd, ex_rev] None)))))
   \<and> map snv_pos (filter (\<lambda>r. snv_chrom r = ''chr1'')
         (fst (projr (fst (variant_tables_snv_insdel ex_env (\<lambda>d. True) [ex_chr2, ex_fwd, ex_rev] None)))))
       = [Some 0, Some 1, Some 3, Some 4]
   \<and> fst (projr (fst (variant_tables_snv_insdel ex_env (\<lambda>d. True) [ex_chr2, ex_fwd, ex_rev] None)))
       = concat (map (\<lambda>c. filter (\<lambda>r. snv_chrom r = c)
           (fst (projr (fst (variant_tables_snv_insdel ex_env (\<lambda>d. True) [ex_chr2, ex_fwd, ex_rev] None)))))
           [''chr1'', ''chr2''])"
proof -
  let ?res = "variant_tables_snv_insdel ex_env (\<lambda>d. True) [ex_chr2, ex_fwd, ex_rev] None"
  obtain snv insdel where res: "?res = (Inr (snv, insdel), [])"
    and snv: "snv = fst (projr (fst ?res))" and insdel: "insdel = snd (projr (fst ?res))"
    by (rule example_run)
  have cs: "chrom_list [ex_chr2, ex_fwd, ex_rev] = [''chr1'', ''chr2'']"
    by code_simp
  have p: "map snv_pos (filter (\<lambda>r. snv_chrom r = ''chr1'') (fst (projr (fst ?res))))
       = [Some 0, Some 1, Some 3, Some 4]"
    by code_simp
  from result_order [OF res] cs p show ?thesis
    unfolding snv [symmetric] insdel [symmetric] by simp
qed

end
